theory Spec2Isabelle
  imports Main "HOL-Library.Word" "HOL-Library.Sublist"
begin

section \<open>Shared shell sessions of the SSH server (srv/sess.go)\<close>

text \<open>
  The file \<^verbatim>\<open>srv/sess.go\<close> keeps a registry of live shell sessions. Several
  connections (parties) attach to one session; the session owns one terminal and a
  broadcaster (\<^verbatim>\<open>multiWriter\<close>) that copies the terminal's output to every party and to
  a capture buffer.

  The embedding is sequential. A pointer to an external object (terminal, connection
  context, channel, server connection) is a natural number. Every call that leaves the
  file (\<^verbatim>\<open>newTerm\<close>, \<^verbatim>\<open>term.run\<close>, \<^verbatim>\<open>term.Close\<close>, \<^verbatim>\<open>ctx.sendResult\<close>,
  \<^verbatim>\<open>ctx.addCloser\<close>, \<^verbatim>\<open>ctx.setTerm\<close>, a sink's \<^verbatim>\<open>Write\<close>) and every \<^verbatim>\<open>go\<close> statement
  appends an event to a trace; what such a call returns is read from an environment
  record, over which every theorem is universally quantified. The bodies of the
  goroutines run concurrently with the callers and are not executed by the model.
  The mutexes of the registry and of the broadcaster have no sequential effect.
  Log statements are left out.
\<close>

subsection \<open>Data\<close>

type_synonym bytes = "8 word list"
type_synonym term_ptr = nat
type_synonym ctx_ptr = nat
type_synonym channel = nat
type_synonym serverConn = nat
type_synonym eventID = nat

datatype error =
    ErrSessionNotFound string
  | ErrPartyNotFound string
  | ErrShortWrite
  | ErrExternal string

text \<open>\<^verbatim>\<open>exec.Cmd\<close>, as far as \<^verbatim>\<open>session.start\<close> fills it.\<close>

record command =
  Path :: string
  Env :: "string list"

text \<open>\<^verbatim>\<open>execResult\<close> is declared outside this file; \<^verbatim>\<open>start\<close> reads its field \<^verbatim>\<open>code\<close>.\<close>

record execResult =
  code :: int

datatype pump =
    PumpOutput string
  | PumpWait string
  | PumpInput string

datatype event =
    EvNewTerm term_ptr
  | EvSetTerm ctx_ptr "term_ptr option"
  | EvRun term_ptr command
  | EvClose term_ptr
  | EvSendResult ctx_ptr execResult
  | EvAddCloser ctx_ptr string
  | EvSinkWrite string bytes
  | EvGo pump

text \<open>
  The party's back-reference \<^verbatim>\<open>s *session\<close> is kept as the id of that session:
  the file reads it only as \<^verbatim>\<open>p.s.id\<close> and \<^verbatim>\<open>p.s.r\<close>.
\<close>

record party =
  party_id :: string
  party_s :: string
  party_sconn :: serverConn
  party_ch :: channel
  party_ctx :: ctx_ptr

text \<open>
  The two kinds of \<^verbatim>\<open>io.Writer\<close> that the file registers: a party, and the
  \<^verbatim>\<open>bytes.Buffer\<close> of \<^verbatim>\<open>start\<close>, held with its contents.
\<close>

datatype writer =
    PartyWriter party
  | CaptureBuffer bytes

record multiWriter =
  writers :: "string \<rightharpoonup> writer"

record session =
  sess_id :: string
  sess_eid :: eventID
  sess_writer :: multiWriter
  sess_parties :: "string \<rightharpoonup> party"
  sess_t :: "term_ptr option"

record server =
  shell :: string

record sessionRegistry =
  sessions :: "string \<rightharpoonup> session"
  srv :: server

text \<open>
  The environment: what the collaborators return. \<^verbatim>\<open>uuid_New n\<close> is the value of the
  \<open>n\<close>-th call of \<^verbatim>\<open>uuid.New()\<close>, \<^verbatim>\<open>newTerm n\<close> the outcome of the \<open>n\<close>-th call of
  \<^verbatim>\<open>newTerm()\<close>.
\<close>

record env =
  uuid_New :: "nat \<Rightarrow> string"
  newTerm :: "nat \<Rightarrow> error + term_ptr"
  term_run :: "term_ptr \<Rightarrow> command \<Rightarrow> error option"
  term_Close :: "term_ptr \<Rightarrow> error option"
  ch_Write :: "channel \<Rightarrow> bytes \<Rightarrow> int \<times> error option"
  ctx_eid :: "ctx_ptr \<Rightarrow> eventID"
  getenv :: "string \<Rightarrow> string"

text \<open>
  The mutable world outside the registry: the two call counters, the inherited-terminal
  slot of every connection context, and the trace.
\<close>

record world =
  uuid_calls :: nat
  newTerm_calls :: nat
  ctx_term :: "ctx_ptr \<rightharpoonup> term_ptr"
  trace :: "event list"

definition emit :: "event list \<Rightarrow> world \<Rightarrow> world" where
  "emit es w = w\<lparr>trace := trace w @ es\<rparr>"

text \<open>
  Go ranges over a map in an order it does not specify. A function that ranges over a
  map takes the order as a list of keys; \<open>range_order m ks\<close> says that \<open>ks\<close> is such an
  order for \<open>m\<close>: every key once.
\<close>

definition range_order :: "('k \<rightharpoonup> 'v) \<Rightarrow> 'k list \<Rightarrow> bool" where
  "range_order m ks \<longleftrightarrow> distinct ks \<and> set ks = dom m"

subsection \<open>The broadcaster\<close>

definition newMultiWriter :: multiWriter where
  "newMultiWriter = \<lparr>writers = Map.empty\<rparr>"

definition addWriter :: "string \<Rightarrow> writer \<Rightarrow> multiWriter \<Rightarrow> multiWriter" where
  "addWriter k wr m = m\<lparr>writers := (writers m)(k \<mapsto> wr)\<rparr>"

definition deleteWriter :: "string \<Rightarrow> multiWriter \<Rightarrow> multiWriter" where
  "deleteWriter k m = m\<lparr>writers := (writers m)(k := None)\<rparr>"

text \<open>\<^verbatim>\<open>party.Write\<close> forwards to the channel.\<close>

definition party_Write :: "env \<Rightarrow> party \<Rightarrow> bytes \<Rightarrow> int \<times> error option" where
  "party_Write E pt p = ch_Write E (party_ch pt) p"

text \<open>
  One call \<^verbatim>\<open>w.Write(p)\<close> on a registered sink: the result and the sink afterwards.
  \<^verbatim>\<open>bytes.Buffer.Write\<close> appends \<open>p\<close> and returns \<^verbatim>\<open>(len(p), nil)\<close>.
\<close>

fun sink_Write :: "env \<Rightarrow> writer \<Rightarrow> bytes \<Rightarrow> (int \<times> error option) \<times> writer" where
  "sink_Write E (PartyWriter pt) p = (party_Write E pt p, PartyWriter pt)"
| "sink_Write E (CaptureBuffer buf) p = ((int (length p), None), CaptureBuffer (buf @ p))"

text \<open>
  \<^verbatim>\<open>multiWriter.Write\<close>, ranging over the sinks in the order \<open>ks\<close>. The named results
  \<^verbatim>\<open>(n, err)\<close> of the Go function hold the failing sink's values at an early return.
  A key of \<open>ks\<close> under which no sink is registered is passed over; a range order of
  the map has no such key.
\<close>

fun Write :: "env \<Rightarrow> string list \<Rightarrow> bytes \<Rightarrow> multiWriter \<Rightarrow> world
    \<Rightarrow> (int \<times> error option) \<times> multiWriter \<times> world" where
  "Write E [] p m w = ((int (length p), None), m, w)"
| "Write E (k # ks) p m w =
     (case writers m k of
        None \<Rightarrow> Write E ks p m w
      | Some wr \<Rightarrow>
          (case sink_Write E wr p of
             ((n, err), wr') \<Rightarrow>
               let m' = m\<lparr>writers := (writers m)(k \<mapsto> wr')\<rparr>;
                   w' = emit [EvSinkWrite k p] w
               in if err \<noteq> None then ((n, err), m', w')
                  else if n \<noteq> int (length p) then ((n, Some ErrShortWrite), m', w')
                  else Write E ks p m' w'))"

subsection \<open>Connection context\<close>

text \<open>
  Modelled from the spec: \<^verbatim>\<open>ctx.getTerm\<close> and \<^verbatim>\<open>ctx.setTerm\<close> are declared outside
  this file. The context carries an optional inherited terminal handle; \<^verbatim>\<open>getTerm\<close>
  reads the slot and \<^verbatim>\<open>setTerm\<close> overwrites it. \<^verbatim>\<open>sendResult\<close> and \<^verbatim>\<open>addCloser\<close>
  are hooks whose calls are recorded.
\<close>

definition getTerm :: "ctx_ptr \<Rightarrow> world \<Rightarrow> term_ptr option" where
  "getTerm c w = ctx_term w c"

definition setTerm :: "ctx_ptr \<Rightarrow> term_ptr option \<Rightarrow> world \<Rightarrow> world" where
  "setTerm c v w = emit [EvSetTerm c v] (w\<lparr>ctx_term := (ctx_term w)(c := v)\<rparr>)"

definition sendResult :: "ctx_ptr \<Rightarrow> execResult \<Rightarrow> world \<Rightarrow> world" where
  "sendResult c r w = emit [EvSendResult c r] w"

definition addCloser :: "ctx_ptr \<Rightarrow> party \<Rightarrow> world \<Rightarrow> world" where
  "addCloser c pt w = emit [EvAddCloser c (party_id pt)] w"

subsection \<open>Party and session\<close>

definition newParty :: "env \<Rightarrow> session \<Rightarrow> serverConn \<Rightarrow> channel \<Rightarrow> ctx_ptr \<Rightarrow> world
    \<Rightarrow> party \<times> world" where
  "newParty E s sconn ch c w =
     (\<lparr>party_id = uuid_New E (uuid_calls w), party_s = sess_id s,
       party_sconn = sconn, party_ch = ch, party_ctx = c\<rparr>,
      w\<lparr>uuid_calls := Suc (uuid_calls w)\<rparr>)"

definition newSession :: "string \<Rightarrow> session" where
  "newSession i =
     \<lparr>sess_id = i, sess_eid = 0, sess_writer = newMultiWriter,
      sess_parties = Map.empty, sess_t = None\<rparr>"

definition session_Close :: "env \<Rightarrow> session \<Rightarrow> world \<Rightarrow> error option \<times> world" where
  "session_Close E s w =
     (case sess_t s of
        Some tm \<Rightarrow> (term_Close E tm, emit [EvClose tm] w)
      | None \<Rightarrow> (None, w))"

definition addParty :: "party \<Rightarrow> session \<Rightarrow> world \<Rightarrow> session \<times> world" where
  "addParty pt s w =
     (let s1 = s\<lparr>sess_parties := (sess_parties s)(party_id pt \<mapsto> pt)\<rparr>;
          s2 = s1\<lparr>sess_writer := addWriter (party_id pt) (PartyWriter pt) (sess_writer s1)\<rparr>;
          w1 = addCloser (party_ctx pt) pt w
      in (s2, emit [EvGo (PumpInput (party_id pt))] w1))"

text \<open>The command of \<^verbatim>\<open>start\<close>: the server's shell with the two-variable environment.\<close>

definition shell_cmd :: "env \<Rightarrow> server \<Rightarrow> command" where
  "shell_cmd E sv =
     \<lparr>Path = shell sv, Env = [''TERM=xterm'', ''HOME='' @ getenv E ''HOME'']\<rparr>"

text \<open>
  The call of \<^verbatim>\<open>newTerm()\<close> in \<^verbatim>\<open>start\<close>; a failed call leaves \<^verbatim>\<open>s.t\<close> nil.
\<close>

definition call_newTerm :: "env \<Rightarrow> world \<Rightarrow> (error + term_ptr) \<times> world" where
  "call_newTerm E w =
     (let w1 = w\<lparr>newTerm_calls := Suc (newTerm_calls w)\<rparr>
      in case newTerm E (newTerm_calls w) of
           Inl e \<Rightarrow> (Inl e, w1)
         | Inr tm \<Rightarrow> (Inr tm, emit [EvNewTerm tm] w1))"

text \<open>
  \<^verbatim>\<open>session.start\<close>. The session is passed and returned, since the caller holds the
  object also when \<^verbatim>\<open>start\<close> fails.
\<close>

definition start :: "env \<Rightarrow> server \<Rightarrow> serverConn \<Rightarrow> channel \<Rightarrow> ctx_ptr \<Rightarrow> session \<Rightarrow> world
    \<Rightarrow> error option \<times> session \<times> world" where
  "start E sv sconn ch c s w =
     (let s1 = s\<lparr>sess_eid := ctx_eid E c\<rparr>;
          (pt, w1) = newParty E s1 sconn ch c w;
          (res, w2) =
            (case getTerm (party_ctx pt) w1 of
               Some tm \<Rightarrow> (Inr tm, setTerm (party_ctx pt) None w1)
             | None \<Rightarrow> call_newTerm E w1)
      in case res of
           Inl e \<Rightarrow> (Some e, s1\<lparr>sess_t := None\<rparr>, w2)
         | Inr tm \<Rightarrow>
             (let s2 = s1\<lparr>sess_t := Some tm\<rparr>;
                  cmd = shell_cmd E sv;
                  w3 = emit [EvRun tm cmd] w2
              in (case term_run E tm cmd of
                    Some e \<Rightarrow> (Some e, s2, w3)
                  | None \<Rightarrow>
                      (let s3 = s2\<lparr>sess_writer :=
                                  addWriter ''capture'' (CaptureBuffer []) (sess_writer s2)\<rparr>;
                           (s4, w4) = addParty pt s3 w3
                       in (None, s4,
                           emit [EvGo (PumpOutput (sess_id s4)),
                                 EvGo (PumpWait (sess_id s4))] w4)))))"

text \<open>
  \<^verbatim>\<open>session.broadcastResult\<close>, ranging over the parties in the order \<open>ks\<close>; a key
  without a party is passed over.
\<close>

fun session_broadcastResult :: "string list \<Rightarrow> execResult \<Rightarrow> session \<Rightarrow> world \<Rightarrow> world" where
  "session_broadcastResult [] r s w = w"
| "session_broadcastResult (k # ks) r s w =
     (case sess_parties s k of
        None \<Rightarrow> session_broadcastResult ks r s w
      | Some pt \<Rightarrow> session_broadcastResult ks r s (sendResult (party_ctx pt) r w))"

definition leave :: "string \<Rightarrow> session \<Rightarrow> error option \<times> session" where
  "leave i s =
     (case sess_parties s i of
        None \<Rightarrow> (Some (ErrPartyNotFound i), s)
      | Some pt \<Rightarrow>
          let s1 = s\<lparr>sess_parties := (sess_parties s)(party_id pt := None)\<rparr>
          in (None, s1\<lparr>sess_writer := deleteWriter (party_id pt) (sess_writer s1)\<rparr>))"

definition join :: "env \<Rightarrow> serverConn \<Rightarrow> channel \<Rightarrow> bytes \<Rightarrow> ctx_ptr \<Rightarrow> session \<Rightarrow> world
    \<Rightarrow> (party \<times> error option) \<times> session \<times> world" where
  "join E sconn ch req c s w =
     (let (pt, w1) = newParty E s sconn ch c w;
          (s1, w2) = addParty pt s w1
      in ((pt, None), s1, w2))"

subsection \<open>The registry\<close>

text \<open>
  The table holds the sessions themselves: an operation that changes a session found
  under a key stores the changed session under that key.
\<close>

definition newSessionRegistry :: "server \<Rightarrow> sessionRegistry" where
  "newSessionRegistry sv = \<lparr>sessions = Map.empty, srv = sv\<rparr>"

definition findSession :: "string \<Rightarrow> sessionRegistry \<Rightarrow> session option" where
  "findSession i reg = sessions reg i"

definition newShell :: "env \<Rightarrow> string \<Rightarrow> serverConn \<Rightarrow> channel \<Rightarrow> bytes \<Rightarrow> ctx_ptr
    \<Rightarrow> sessionRegistry \<Rightarrow> world \<Rightarrow> error option \<times> sessionRegistry \<times> world" where
  "newShell E sid sconn ch req c reg w =
     (case start E (srv reg) sconn ch c (newSession sid) w of
        (Some e, sess, w1) \<Rightarrow> (Some e, reg, w1)
      | (None, sess, w1) \<Rightarrow>
          (None, reg\<lparr>sessions := (sessions reg)(sess_id sess \<mapsto> sess)\<rparr>, w1))"

definition joinShell :: "env \<Rightarrow> string \<Rightarrow> serverConn \<Rightarrow> channel \<Rightarrow> bytes \<Rightarrow> ctx_ptr
    \<Rightarrow> sessionRegistry \<Rightarrow> world \<Rightarrow> error option \<times> sessionRegistry \<times> world" where
  "joinShell E sid sconn ch req c reg w =
     (case findSession sid reg of
        None \<Rightarrow> newShell E sid sconn ch req c reg w
      | Some sess \<Rightarrow>
          (case join E sconn ch req c sess w of
             (res, sess1, w1) \<Rightarrow>
               (None, reg\<lparr>sessions := (sessions reg)(sid \<mapsto> sess1)\<rparr>, w1)))"

definition leaveShell :: "env \<Rightarrow> string \<Rightarrow> string \<Rightarrow> sessionRegistry \<Rightarrow> world
    \<Rightarrow> error option \<times> sessionRegistry \<times> world" where
  "leaveShell E sid pid reg w =
     (case findSession sid reg of
        None \<Rightarrow> (Some (ErrSessionNotFound sid), reg, w)
      | Some sess \<Rightarrow>
          (case leave pid sess of
             (Some e, sess1) \<Rightarrow> (Some e, reg, w)
           | (None, sess1) \<Rightarrow>
               let reg1 = reg\<lparr>sessions := (sessions reg)(sid \<mapsto> sess1)\<rparr>
               in if dom (sess_parties sess1) \<noteq> {} then (None, reg1, w)
                  else
                    let reg2 = reg1\<lparr>sessions := (sessions reg1)(sess_id sess1 := None)\<rparr>
                    in case session_Close E sess1 w of
                         (r, w1) \<Rightarrow> (r, reg2, w1)))"

text \<open>\<^verbatim>\<open>party.Close\<close>: the party leaves the session it refers to.\<close>

definition party_Close :: "env \<Rightarrow> party \<Rightarrow> sessionRegistry \<Rightarrow> world
    \<Rightarrow> error option \<times> sessionRegistry \<times> world" where
  "party_Close E pt reg w = leaveShell E (party_s pt) (party_id pt) reg w"

definition broadcastResult :: "string list \<Rightarrow> string \<Rightarrow> execResult \<Rightarrow> sessionRegistry \<Rightarrow> world
    \<Rightarrow> error option \<times> world" where
  "broadcastResult ks sid r reg w =
     (case findSession sid reg of
        None \<Rightarrow> (Some (ErrSessionNotFound sid), w)
      | Some sess \<Rightarrow> (None, session_broadcastResult ks r sess w))"

subsection \<open>The join subsystem\<close>

record joinSubsys =
  js_srv :: server
  js_sid :: string

text \<open>\<^verbatim>\<open>strings.TrimPrefix\<close> of the Go library.\<close>

definition TrimPrefix :: "string \<Rightarrow> string \<Rightarrow> string" where
  "TrimPrefix s pre = (if prefix pre s then drop (length pre) s else s)"

definition parseJoinSubsys :: "string \<Rightarrow> server \<Rightarrow> joinSubsys \<times> error option" where
  "parseJoinSubsys name sv = (\<lparr>js_srv = sv, js_sid = TrimPrefix name ''join:''\<rparr>, None)"

subsection \<open>Sequences of registry calls\<close>

type_synonym conn_args = "serverConn \<times> channel \<times> bytes \<times> ctx_ptr"

datatype shell_call = NewShell conn_args | JoinShell conn_args

fun run_call :: "env \<Rightarrow> string \<Rightarrow> shell_call \<Rightarrow> sessionRegistry \<Rightarrow> world
    \<Rightarrow> error option \<times> sessionRegistry \<times> world" where
  "run_call E sid (NewShell (sconn, ch, req, c)) reg w = newShell E sid sconn ch req c reg w"
| "run_call E sid (JoinShell (sconn, ch, req, c)) reg w = joinShell E sid sconn ch req c reg w"

text \<open>The calls of a list, one after the other, all with the session id \<open>sid\<close>.\<close>

fun run_calls :: "env \<Rightarrow> string \<Rightarrow> shell_call list \<Rightarrow> sessionRegistry \<Rightarrow> world
    \<Rightarrow> error option list \<times> sessionRegistry \<times> world" where
  "run_calls E sid [] reg w = ([], reg, w)"
| "run_calls E sid (a # as) reg w =
     (case run_call E sid a reg w of
        (r, reg1, w1) \<Rightarrow>
          (case run_calls E sid as reg1 w1 of
             (rs, reg2, w2) \<Rightarrow> (r # rs, reg2, w2)))"

text \<open>\<^verbatim>\<open>leaveShell\<close> for each party id of a list, one after the other.\<close>

fun leaveShells :: "env \<Rightarrow> string \<Rightarrow> string list \<Rightarrow> sessionRegistry \<Rightarrow> world
    \<Rightarrow> error option list \<times> sessionRegistry \<times> world" where
  "leaveShells E sid [] reg w = ([], reg, w)"
| "leaveShells E sid (i # ids) reg w =
     (case leaveShell E sid i reg w of
        (r, reg1, w1) \<Rightarrow>
          (case leaveShells E sid ids reg1 w1 of
             (rs, reg2, w2) \<Rightarrow> (r # rs, reg2, w2)))"

text \<open>
  Events that start a process, and events by which a session comes to own a terminal:
  a fresh allocation, or the adoption of an inherited one (\<^verbatim>\<open>setTerm(nil)\<close>).
\<close>

fun is_run :: "event \<Rightarrow> bool" where
  "is_run (EvRun tm cmd) = True"
| "is_run _ = False"

fun acquires_term :: "event \<Rightarrow> bool" where
  "acquires_term (EvNewTerm tm) = True"
| "acquires_term (EvSetTerm c None) = True"
| "acquires_term _ = False"

text \<open>Every party of the session is stored under its own id, as \<^verbatim>\<open>addParty\<close> does.\<close>

definition keyed :: "session \<Rightarrow> bool" where
  "keyed s \<longleftrightarrow> (\<forall>k pt. sess_parties s k = Some pt \<longrightarrow> party_id pt = k)"

text \<open>A sink that takes the whole of \<open>p\<close>: its \<^verbatim>\<open>Write\<close> returns \<^verbatim>\<open>(len(p), nil)\<close>.\<close>

definition sink_ok :: "env \<Rightarrow> bytes \<Rightarrow> writer \<Rightarrow> bool" where
  "sink_ok E p wr \<longleftrightarrow> fst (sink_Write E wr p) = (int (length p), None)"

text \<open>The sink after one \<^verbatim>\<open>Write(p)\<close>.\<close>

definition deliver :: "env \<Rightarrow> bytes \<Rightarrow> writer \<Rightarrow> writer" where
  "deliver E p wr = snd (sink_Write E wr p)"

subsection \<open>Example environments\<close>

text \<open>
  An environment in which every collaborator succeeds, and variants in which the
  terminal cannot be allocated, the shell cannot be started, the terminal fails to
  close, channel 2 is closed, or channel 2 takes one byte only.
\<close>

definition env_ok :: env where
  "env_ok =
     \<lparr>uuid_New = (\<lambda>n. replicate (Suc n) CHR ''p''),
      newTerm = (\<lambda>n. Inr n),
      term_run = (\<lambda>tm cmd. None),
      term_Close = (\<lambda>tm. None),
      ch_Write = (\<lambda>ch p. (int (length p), None)),
      ctx_eid = (\<lambda>c. c),
      getenv = (\<lambda>v. ''/root'')\<rparr>"

definition env_no_term :: env where
  "env_no_term = env_ok\<lparr>newTerm := (\<lambda>n. Inl (ErrExternal ''no pty''))\<rparr>"

definition env_no_run :: env where
  "env_no_run = env_ok\<lparr>term_run := (\<lambda>tm cmd. Some (ErrExternal ''exec failed''))\<rparr>"

definition env_close_fails :: env where
  "env_close_fails = env_ok\<lparr>term_Close := (\<lambda>tm. Some (ErrExternal ''close failed''))\<rparr>"

definition env_ch_closed :: env where
  "env_ch_closed =
     env_ok\<lparr>ch_Write := (\<lambda>ch p. if ch = 2 then (0, Some (ErrExternal ''EOF''))
                                else (int (length p), None))\<rparr>"

definition env_ch_short :: env where
  "env_ch_short =
     env_ok\<lparr>ch_Write := (\<lambda>ch p. if ch = 2 then (1, None) else (int (length p), None))\<rparr>"

definition world0 :: world where
  "world0 = \<lparr>uuid_calls = 0, newTerm_calls = 0, ctx_term = Map.empty, trace = []\<rparr>"

text \<open>A world in which context 7 carries the inherited terminal 40.\<close>

definition world_inherited :: world where
  "world_inherited = world0\<lparr>ctx_term := [7 \<mapsto> 40]\<rparr>"

definition reg0 :: sessionRegistry where
  "reg0 = newSessionRegistry \<lparr>shell = ''/bin/sh''\<rparr>"

definition party_a :: party where
  "party_a = \<lparr>party_id = ''a'', party_s = ''s'', party_sconn = 1, party_ch = 1, party_ctx = 1\<rparr>"

definition party_b :: party where
  "party_b = \<lparr>party_id = ''b'', party_s = ''s'', party_sconn = 2, party_ch = 2, party_ctx = 2\<rparr>"

text \<open>A session with the parties \<open>a\<close> and \<open>b\<close> and the capture sink.\<close>

definition sess_ab :: session where
  "sess_ab =
     \<lparr>sess_id = ''s'', sess_eid = 1,
      sess_writer = \<lparr>writers = [''capture'' \<mapsto> CaptureBuffer [], ''a'' \<mapsto> PartyWriter party_a,
                                 ''b'' \<mapsto> PartyWriter party_b]\<rparr>,
      sess_parties = [''a'' \<mapsto> party_a, ''b'' \<mapsto> party_b],
      sess_t = Some 0\<rparr>"

lemmas eval_defs =
  env_ok_def env_no_term_def env_no_run_def env_close_fails_def env_ch_closed_def
  env_ch_short_def
  world0_def world_inherited_def reg0_def party_a_def party_b_def sess_ab_def
  newSessionRegistry_def newShell_def joinShell_def leaveShell_def findSession_def
  join_def leave_def start_def session_Close_def newParty_def newSession_def
  getTerm_def setTerm_def sendResult_def call_newTerm_def emit_def addParty_def addCloser_def
  addWriter_def deleteWriter_def newMultiWriter_def shell_cmd_def party_Write_def Let_def

section \<open>Auxiliary lemmas\<close>

subsection \<open>The trace\<close>

lemma emit_emit: "emit es (emit ds w) = emit (ds @ es) w"
  by (simp add: emit_def)

lemma emit_Nil: "emit [] w = w"
  by (simp add: emit_def)

lemma trace_emit: "trace (emit es w) = trace w @ es"
  by (simp add: emit_def)

subsection \<open>The broadcaster\<close>

lemma Write_all_ok:
  assumes "distinct ks"
    and "\<forall>k\<in>set ks. \<exists>wr. writers m k = Some wr \<and> sink_ok E p wr"
  shows "Write E ks p m w =
           ((int (length p), None),
            m\<lparr>writers := (\<lambda>k. if k \<in> set ks then map_option (deliver E p) (writers m k)
                               else writers m k)\<rparr>,
            emit (map (\<lambda>k. EvSinkWrite k p) ks) w)"
  using assms
proof (induction ks arbitrary: m w)
  case Nil
  then show ?case by (simp add: emit_Nil)
next
  case (Cons k ks)
  from Cons.prems obtain wr where wr: "writers m k = Some wr" "sink_ok E p wr"
    by auto
  obtain wr' where sw: "sink_Write E wr p = ((int (length p), None), wr')"
    using wr(2) by (cases "sink_Write E wr p") (auto simp: sink_ok_def)
  let ?m = "m\<lparr>writers := (writers m)(k \<mapsto> wr')\<rparr>"
  have d: "distinct ks" and nk: "k \<notin> set ks"
    using Cons.prems(1) by auto
  have ok: "\<forall>j\<in>set ks. \<exists>wr. writers ?m j = Some wr \<and> sink_ok E p wr"
    using Cons.prems(2) nk by auto
  have step: "Write E (k # ks) p m w = Write E ks p ?m (emit [EvSinkWrite k p] w)"
    using wr(1) sw by simp
  have wr'_eq: "wr' = deliver E p wr"
    using sw by (simp add: deliver_def)
  have maps: "(\<lambda>j. if j \<in> set ks then map_option (deliver E p) (writers ?m j) else writers ?m j)
      = (\<lambda>j. if j \<in> set (k # ks) then map_option (deliver E p) (writers m j) else writers m j)"
    using nk wr(1) wr'_eq by (auto simp: fun_eq_iff)
  show ?case
    unfolding step Cons.IH [OF d ok] maps
    by (simp add: emit_emit)
qed

lemma Write_append:
  "Write E (ks1 @ ks2) p m w =
     (case Write E ks1 p m w of
        (r, m', w') \<Rightarrow> if snd r = None then Write E ks2 p m' w' else (r, m', w'))"
proof (induction ks1 arbitrary: m w)
  case Nil
  then show ?case by simp
next
  case (Cons k ks1)
  show ?case
  proof (cases "writers m k")
    case None
    then show ?thesis using Cons.IH by simp
  next
    case (Some wr)
    obtain n err wr' where sw: "sink_Write E wr p = ((n, err), wr')"
      by (metis surj_pair)
    show ?thesis
      using Some sw Cons.IH by (simp add: Let_def)
  qed
qed


subsection \<open>Result delivery\<close>

lemma session_broadcastResult_trace:
  "map Some ps = map (sess_parties s) ks \<Longrightarrow>
   session_broadcastResult ks r s w = emit (map (\<lambda>pt. EvSendResult (party_ctx pt) r) ps) w"
proof (induction ks arbitrary: ps w)
  case Nil
  then show ?case by (simp add: emit_Nil)
next
  case (Cons k ks)
  then obtain pt ps' where ps: "ps = pt # ps'" "sess_parties s k = Some pt"
      "map Some ps' = map (sess_parties s) ks"
    by (cases ps) auto
  show ?case
    using ps Cons.IH [OF ps(3)] by (simp add: sendResult_def emit_emit)
qed

lemma range_order_parties:
  assumes "range_order m ks"
  shows "\<exists>ps. map Some ps = map m ks"
proof -
  have "\<forall>k\<in>set ks. \<exists>v. m k = Some v"
    using assms by (auto simp: range_order_def)
  then show ?thesis
  proof (induction ks)
    case Nil
    then show ?case by simp
  next
    case (Cons k ks)
    then obtain v ps where "m k = Some v" "map Some ps = map m ks"
      by auto
    then have "map Some (v # ps) = map m (k # ks)"
      by simp
    then show ?case by blast
  qed
qed


subsection \<open>Creating, joining and leaving\<close>

lemma start_ok:
  assumes "start E sv sconn ch c (newSession sid) w = (None, sess, w1)"
  shows "\<exists>tm tr.
           sess_id sess = sid \<and> sess_t sess = Some tm \<and> keyed sess
           \<and> dom (sess_parties sess) = {uuid_New E (uuid_calls w)}
           \<and> uuid_calls w1 = Suc (uuid_calls w)
           \<and> trace w1 = trace w @ tr
           \<and> filter is_run tr = [EvRun tm (shell_cmd E sv)]
           \<and> length (filter acquires_term tr) = 1"
  using assms
  by (auto simp: start_def newParty_def call_newTerm_def newSession_def
        setTerm_def getTerm_def emit_def addParty_def addCloser_def addWriter_def keyed_def
        Let_def
      split: option.splits sum.splits if_splits)

lemma newShell_created:
  assumes "newShell E sid sconn ch req c reg w = (None, reg1, w1)"
  shows "\<exists>tm sess tr.
           sessions reg1 = (sessions reg)(sid \<mapsto> sess) \<and> srv reg1 = srv reg
           \<and> sess_id sess = sid \<and> sess_t sess = Some tm \<and> keyed sess
           \<and> dom (sess_parties sess) = {uuid_New E (uuid_calls w)}
           \<and> uuid_calls w1 = Suc (uuid_calls w)
           \<and> trace w1 = trace w @ tr
           \<and> filter is_run tr = [EvRun tm (shell_cmd E (srv reg))]
           \<and> length (filter acquires_term tr) = 1"
proof -
  obtain r sess w' where st: "start E (srv reg) sconn ch c (newSession sid) w = (r, sess, w')"
    by (metis prod_cases3)
  have r: "r = None" and reg1: "reg1 = reg\<lparr>sessions := (sessions reg)(sess_id sess \<mapsto> sess)\<rparr>"
    and w': "w' = w1"
    using assms st by (auto simp: newShell_def split: option.splits)
  from start_ok [OF st [unfolded r w']] obtain tm tr where p:
    "sess_id sess = sid" "sess_t sess = Some tm" "keyed sess"
    "dom (sess_parties sess) = {uuid_New E (uuid_calls w)}"
    "uuid_calls w1 = Suc (uuid_calls w)" "trace w1 = trace w @ tr"
    "filter is_run tr = [EvRun tm (shell_cmd E (srv reg))]"
    "length (filter acquires_term tr) = 1"
    by blast
  have "sessions reg1 = (sessions reg)(sid \<mapsto> sess)" "srv reg1 = srv reg"
    using reg1 p(1) by simp_all
  with p show ?thesis by blast
qed

lemma join_props:
  assumes "join E sconn ch req c sess w = (r, sess1, w1)"
  shows "sess_id sess1 = sess_id sess \<and> sess_t sess1 = sess_t sess
         \<and> (keyed sess \<longrightarrow> keyed sess1)
         \<and> dom (sess_parties sess1) = insert (uuid_New E (uuid_calls w)) (dom (sess_parties sess))
         \<and> uuid_calls w1 = Suc (uuid_calls w)
         \<and> (\<exists>tr. trace w1 = trace w @ tr \<and> filter is_run tr = [] \<and> filter acquires_term tr = [])"
  using assms
  by (auto simp: join_def newParty_def emit_def addParty_def
        addCloser_def addWriter_def keyed_def Let_def split: if_splits)

lemma joinShell_existing:
  assumes "sessions reg sid = Some sess"
  shows "\<exists>sess1 reg1 w1 tr.
           joinShell E sid sconn ch req c reg w = (None, reg1, w1)
           \<and> sessions reg1 = (sessions reg)(sid \<mapsto> sess1) \<and> srv reg1 = srv reg
           \<and> sess_id sess1 = sess_id sess \<and> sess_t sess1 = sess_t sess
           \<and> (keyed sess \<longrightarrow> keyed sess1)
           \<and> dom (sess_parties sess1) = insert (uuid_New E (uuid_calls w)) (dom (sess_parties sess))
           \<and> uuid_calls w1 = Suc (uuid_calls w)
           \<and> trace w1 = trace w @ tr
           \<and> filter is_run tr = [] \<and> filter acquires_term tr = []"
proof -
  obtain r sess1 w1 where j: "join E sconn ch req c sess w = (r, sess1, w1)"
    by (metis prod_cases3)
  have js: "joinShell E sid sconn ch req c reg w
      = (None, reg\<lparr>sessions := (sessions reg)(sid \<mapsto> sess1)\<rparr>, w1)"
    using assms j by (simp add: joinShell_def findSession_def)
  from join_props [OF j] obtain tr where p:
    "sess_id sess1 = sess_id sess" "sess_t sess1 = sess_t sess" "keyed sess \<longrightarrow> keyed sess1"
    "dom (sess_parties sess1) = insert (uuid_New E (uuid_calls w)) (dom (sess_parties sess))"
    "uuid_calls w1 = Suc (uuid_calls w)" "trace w1 = trace w @ tr"
    "filter is_run tr = []" "filter acquires_term tr = []"
    by blast
  show ?thesis
    using js p by (intro exI [of _ sess1] exI [of _ "reg\<lparr>sessions := (sessions reg)(sid \<mapsto> sess1)\<rparr>"]
        exI [of _ w1] exI [of _ tr]) simp
qed


lemma joins_existing:
  assumes "sessions reg sid = Some sess"
  shows "\<exists>sess1 reg1 w1 tr.
           run_calls E sid (map JoinShell js) reg w = (replicate (length js) None, reg1, w1)
           \<and> sessions reg1 = (sessions reg)(sid \<mapsto> sess1)
           \<and> sess_id sess1 = sess_id sess \<and> sess_t sess1 = sess_t sess
           \<and> (keyed sess \<longrightarrow> keyed sess1)
           \<and> dom (sess_parties sess1)
               = dom (sess_parties sess) \<union> uuid_New E ` {uuid_calls w ..< uuid_calls w + length js}
           \<and> trace w1 = trace w @ tr
           \<and> filter is_run tr = [] \<and> filter acquires_term tr = []"
  using assms
proof (induction js arbitrary: reg sess w)
  case Nil
  have "sessions reg = (sessions reg)(sid \<mapsto> sess)"
    using Nil by (simp add: map_upd_triv)
  then show ?case
    by (intro exI [of _ sess] exI [of _ reg] exI [of _ w] exI [of _ "[]"]) simp
next
  case (Cons a js)
  obtain sconn ch req c where a: "a = (sconn, ch, req, c)"
    by (metis prod_cases4)
  from joinShell_existing [OF Cons.prems, of E sconn ch req c w]
  obtain sessA regA wA trA where A:
    "joinShell E sid sconn ch req c reg w = (None, regA, wA)"
    "sessions regA = (sessions reg)(sid \<mapsto> sessA)"
    "sess_id sessA = sess_id sess" "sess_t sessA = sess_t sess" "keyed sess \<longrightarrow> keyed sessA"
    "dom (sess_parties sessA) = insert (uuid_New E (uuid_calls w)) (dom (sess_parties sess))"
    "uuid_calls wA = Suc (uuid_calls w)" "trace wA = trace w @ trA"
    "filter is_run trA = []" "filter acquires_term trA = []"
    by blast
  have inA: "sessions regA sid = Some sessA"
    using A(2) by simp
  from Cons.IH [OF inA, of wA]
  obtain sessB regB wB trB where B:
    "run_calls E sid (map JoinShell js) regA wA = (replicate (length js) None, regB, wB)"
    "sessions regB = (sessions regA)(sid \<mapsto> sessB)"
    "sess_id sessB = sess_id sessA" "sess_t sessB = sess_t sessA" "keyed sessA \<longrightarrow> keyed sessB"
    "dom (sess_parties sessB)
       = dom (sess_parties sessA) \<union> uuid_New E ` {uuid_calls wA ..< uuid_calls wA + length js}"
    "trace wB = trace wA @ trB"
    "filter is_run trB = []" "filter acquires_term trB = []"
    by blast
  have run: "run_calls E sid (map JoinShell (a # js)) reg w
      = (replicate (length (a # js)) None, regB, wB)"
    using a A(1) B(1) by simp
  have "{uuid_calls w ..< uuid_calls w + length (a # js)}
      = insert (uuid_calls w) {Suc (uuid_calls w) ..< Suc (uuid_calls w) + length js}"
    by auto
  then have d: "dom (sess_parties sessB)
      = dom (sess_parties sess) \<union> uuid_New E ` {uuid_calls w ..< uuid_calls w + length (a # js)}"
    using B(6) A(6,7) by auto
  have t: "trace wB = trace w @ (trA @ trB)"
    using A(8) B(7) by simp
  have f: "filter is_run (trA @ trB) = []" "filter acquires_term (trA @ trB) = []"
    using A(9,10) B(8,9) by simp_all
  have m: "sessions regB = (sessions reg)(sid \<mapsto> sessB)"
    using A(2) B(2) by simp
  show ?case
    using run m d t f A(3,4,5) B(3,4,5)
    by (intro exI [of _ sessB] exI [of _ regB] exI [of _ wB] exI [of _ "trA @ trB"]) simp
qed

lemma leave_known:
  assumes "sess_parties s i = Some pt" and "keyed s"
  shows "\<exists>s1. leave i s = (None, s1) \<and> sess_id s1 = sess_id s \<and> sess_t s1 = sess_t s
           \<and> keyed s1 \<and> dom (sess_parties s1) = dom (sess_parties s) - {i}"
  using assms
  by (auto simp: leave_def keyed_def Let_def split: if_splits)

lemma leaveShells_all:
  assumes "sessions reg sid = Some sess" and "sess_id sess = sid" and "sess_t sess = Some tm"
    and "keyed sess" and "distinct pids" and "set pids = dom (sess_parties sess)"
    and "pids \<noteq> []"
  shows "\<exists>reg2.
           leaveShells E sid pids reg w
             = (replicate (length pids - 1) None @ [term_Close E tm], reg2, emit [EvClose tm] w)
           \<and> sessions reg2 = (sessions reg)(sid := None)"
  using assms
proof (induction pids arbitrary: reg sess)
  case Nil
  then show ?case by simp
next
  case (Cons i ids)
  have "i \<in> dom (sess_parties sess)"
    using Cons.prems(6) by auto
  then obtain pt where pt: "sess_parties sess i = Some pt"
    by blast
  from leave_known [OF pt Cons.prems(4)] obtain s1 where s1:
    "leave i sess = (None, s1)" "sess_id s1 = sess_id sess" "sess_t s1 = sess_t sess"
    "keyed s1" "dom (sess_parties s1) = dom (sess_parties sess) - {i}"
    by blast
  have dom1: "dom (sess_parties s1) = set ids"
  proof -
    have "i \<notin> set ids" and "dom (sess_parties sess) = insert i (set ids)"
      using Cons.prems(5,6) by simp_all
    then show ?thesis
      using s1(5) by simp
  qed
  show ?case
  proof (cases "ids = []")
    case True
    have em: "dom (sess_parties s1) = {}"
      using dom1 True by simp
    have "leaveShell E sid i reg w
        = (term_Close E tm, reg\<lparr>sessions := (sessions reg)(sid := None)\<rparr>, emit [EvClose tm] w)"
      using Cons.prems(1,2,3) s1(1,2,3) em
      by (simp add: leaveShell_def findSession_def session_Close_def Let_def)
    then show ?thesis
      using True
      by (intro exI [of _ "reg\<lparr>sessions := (sessions reg)(sid := None)\<rparr>"]) simp
  next
    case False
    let ?reg1 = "reg\<lparr>sessions := (sessions reg)(sid \<mapsto> s1)\<rparr>"
    have ne: "dom (sess_parties s1) \<noteq> {}"
      using dom1 False by simp
    have l: "leaveShell E sid i reg w = (None, ?reg1, w)"
      using Cons.prems(1) s1(1) ne
      by (simp add: leaveShell_def findSession_def Let_def)
    have "\<exists>reg2. leaveShells E sid ids ?reg1 w
         = (replicate (length ids - 1) None @ [term_Close E tm], reg2, emit [EvClose tm] w)
         \<and> sessions reg2 = (sessions ?reg1)(sid := None)"
    proof (rule Cons.IH [where reg = ?reg1 and sess = s1])
      show "sessions ?reg1 sid = Some s1" by simp
      show "sess_id s1 = sid" using s1(2) Cons.prems(2) by simp
      show "sess_t s1 = Some tm" using s1(3) Cons.prems(3) by simp
      show "keyed s1" by (rule s1(4))
      show "distinct ids" using Cons.prems(5) by simp
      show "set ids = dom (sess_parties s1)" using dom1 by simp
      show "ids \<noteq> []" by (rule False)
    qed
    then obtain reg2 where r2:
      "leaveShells E sid ids ?reg1 w
         = (replicate (length ids - 1) None @ [term_Close E tm], reg2, emit [EvClose tm] w)"
      "sessions reg2 = (sessions ?reg1)(sid := None)"
      by blast
    have len: "replicate (length (i # ids) - 1) None = None # replicate (length ids - 1) (None :: error option)"
      using False by (cases "ids") simp_all
    show ?thesis
      using l r2 len by (intro exI [of _ reg2]) simp
  qed
qed


lemma attach_sequence:
  assumes "sessions reg sid = None"
    and "run_calls E sid (a # map JoinShell js) reg w = (None # rs, reg1, w1)"
  shows "\<exists>tm sess tr.
           rs = replicate (length js) None
           \<and> sessions reg1 sid = Some sess \<and> sess_id sess = sid \<and> sess_t sess = Some tm
           \<and> keyed sess
           \<and> dom (sess_parties sess)
               = uuid_New E ` {uuid_calls w ..< uuid_calls w + Suc (length js)}
           \<and> trace w1 = trace w @ tr
           \<and> filter is_run tr = [EvRun tm (shell_cmd E (srv reg))]
           \<and> length (filter acquires_term tr) = 1"
proof -
  obtain r0 regA wA where first: "run_call E sid a reg w = (r0, regA, wA)"
    by (metis prod_cases3)
  obtain rsB regB wB where rest: "run_calls E sid (map JoinShell js) regA wA = (rsB, regB, wB)"
    by (metis prod_cases3)
  have eqs: "r0 = None" "rs = rsB" "reg1 = regB" "w1 = wB"
    using assms(2) first rest by simp_all
  have "\<exists>sconn ch req c. run_call E sid a reg w = newShell E sid sconn ch req c reg w"
  proof (cases a)
    case (NewShell x)
    then show ?thesis by (cases x) auto
  next
    case (JoinShell x)
    then show ?thesis
      using assms(1) by (cases x) (auto simp: joinShell_def findSession_def)
  qed
  then obtain sconn ch req c where "newShell E sid sconn ch req c reg w = (None, regA, wA)"
    using first eqs(1) by auto
  from newShell_created [OF this] obtain tm sessA trA where A:
    "sessions regA = (sessions reg)(sid \<mapsto> sessA)" "srv regA = srv reg"
    "sess_id sessA = sid" "sess_t sessA = Some tm" "keyed sessA"
    "dom (sess_parties sessA) = {uuid_New E (uuid_calls w)}"
    "uuid_calls wA = Suc (uuid_calls w)" "trace wA = trace w @ trA"
    "filter is_run trA = [EvRun tm (shell_cmd E (srv reg))]"
    "length (filter acquires_term trA) = 1"
    by blast
  have inA: "sessions regA sid = Some sessA"
    using A(1) by simp
  from joins_existing [OF inA, of E js wA] rest obtain sessB trB where B:
    "rsB = replicate (length js) None"
    "sessions regB = (sessions regA)(sid \<mapsto> sessB)"
    "sess_id sessB = sess_id sessA" "sess_t sessB = sess_t sessA"
    "keyed sessA \<longrightarrow> keyed sessB"
    "dom (sess_parties sessB)
       = dom (sess_parties sessA) \<union> uuid_New E ` {uuid_calls wA ..< uuid_calls wA + length js}"
    "trace wB = trace wA @ trB" "filter is_run trB = []" "filter acquires_term trB = []"
    by auto
  have "{uuid_calls w ..< uuid_calls w + Suc (length js)}
      = insert (uuid_calls w) {Suc (uuid_calls w) ..< Suc (uuid_calls w) + length js}"
    by auto
  then have d: "dom (sess_parties sessB)
      = uuid_New E ` {uuid_calls w ..< uuid_calls w + Suc (length js)}"
    using B(6) A(6,7) by auto
  have t: "trace w1 = trace w @ (trA @ trB)"
    using A(8) B(7) eqs(4) by simp
  have f: "filter is_run (trA @ trB) = [EvRun tm (shell_cmd E (srv reg))]"
      "length (filter acquires_term (trA @ trB)) = 1"
    using A(9,10) B(8,9) by simp_all
  have s: "sessions reg1 sid = Some sessB"
    using B(2) eqs(3) by simp
  show ?thesis
    using eqs(2) B(1,3,4,5) A(3,4,5) s d t f
    by (intro exI [of _ tm] exI [of _ sessB] exI [of _ "trA @ trB"]) simp
qed

section \<open>Claims\<close>

subsection \<open>C1: one terminal per session\<close>

text \<open>
  C1, as amended. Let the session id be absent from the table, let a first call
  (\<^verbatim>\<open>newShell\<close> or \<^verbatim>\<open>joinShell\<close>) with that id succeed, and let any number of
  \<^verbatim>\<open>joinShell\<close> calls with the same id follow. Then every later call returns nil and
  attaches a party to the session the first call registered: the session's parties are
  those of the ids that \<^verbatim>\<open>uuid.New\<close> returned to these calls, its terminal is the one
  the first call acquired, and over the whole sequence exactly one command was run and
  exactly one terminal was allocated or adopted.
\<close>

theorem one_terminal_per_session:
  assumes "sessions reg sid = None"
    and "run_calls E sid (a # map JoinShell js) reg w = (None # rs, reg1, w1)"
  shows "\<exists>tm sess tr.
           rs = replicate (length js) None
           \<and> sessions reg1 sid = Some sess \<and> sess_id sess = sid \<and> sess_t sess = Some tm
           \<and> dom (sess_parties sess)
               = uuid_New E ` {uuid_calls w ..< uuid_calls w + Suc (length js)}
           \<and> trace w1 = trace w @ tr
           \<and> filter is_run tr = [EvRun tm (shell_cmd E (srv reg))]
           \<and> length (filter acquires_term tr) = 1"
  using attach_sequence [OF assms] by blast

theorem one_terminal_per_session_witness:
  "sessions reg0 ''s'' = None
   \<and> fst (run_calls env_ok ''s''
        (NewShell (1, 1, [], 1) # map JoinShell [(2, 2, [], 2), (3, 3, [], 3)]) reg0 world0)
       = [None, None, None]
   \<and> (\<exists>tm sess.
         sessions (fst (snd (run_calls env_ok ''s''
            (NewShell (1, 1, [], 1) # map JoinShell [(2, 2, [], 2), (3, 3, [], 3)]) reg0 world0)))
            ''s'' = Some sess
         \<and> sess_t sess = Some tm
         \<and> dom (sess_parties sess) = {''p'', ''pp'', ''ppp''}
         \<and> filter is_run (trace (snd (snd (run_calls env_ok ''s''
            (NewShell (1, 1, [], 1) # map JoinShell [(2, 2, [], 2), (3, 3, [], 3)]) reg0 world0))))
            = [EvRun tm (shell_cmd env_ok (srv reg0))]
         \<and> length (filter acquires_term (trace (snd (snd (run_calls env_ok ''s''
            (NewShell (1, 1, [], 1) # map JoinShell [(2, 2, [], 2), (3, 3, [], 3)]) reg0 world0)))))
            = 1)"
proof -
  let ?R = "run_calls env_ok ''s''
     (NewShell (1, 1, [], 1) # map JoinShell [(2, 2, [], 2), (3, 3, [], 3)]) reg0 world0"
  have h1: "sessions reg0 ''s'' = None"
    by (simp add: reg0_def newSessionRegistry_def)
  have r: "fst ?R = [None, None, None]"
    by (simp add: eval_defs)
  then have h2: "?R = (None # [None, None], fst (snd ?R), snd (snd ?R))"
    by (metis prod.collapse)
  have u: "uuid_New env_ok ` {uuid_calls world0 ..<
        uuid_calls world0 + Suc (length [(2::nat, 2::nat, [] :: bytes, 2::nat), (3, 3, [], 3)])}
      = {''p'', ''pp'', ''ppp''}"
    by (auto simp: env_ok_def world0_def atLeast0_lessThan_Suc)
  have t: "trace world0 = []"
    by (simp add: world0_def)
  show ?thesis
    using one_terminal_per_session [OF h1 h2] h1 r u t by auto
qed

text \<open>
  C1 as stated fails for \<^verbatim>\<open>newShell\<close>, which does not look the id up: two
  \<^verbatim>\<open>newShell\<close> calls with one id allocate two terminals and run two commands.
\<close>

theorem newShell_twice_counterexample:
  "filter is_run (trace (snd (snd (run_calls env_ok ''s''
       [NewShell (1, 1, [], 1), NewShell (2, 2, [], 2)] reg0 world0))))
     = [EvRun 0 (shell_cmd env_ok (srv reg0)), EvRun 1 (shell_cmd env_ok (srv reg0))]
   \<and> filter acquires_term (trace (snd (snd (run_calls env_ok ''s''
       [NewShell (1, 1, [], 1), NewShell (2, 2, [], 2)] reg0 world0))))
     = [EvNewTerm 0, EvNewTerm 1]"
  by (simp add: eval_defs)


subsection \<open>C2: the last party to leave closes the session\<close>

text \<open>
  C2. Let a first call for an id absent from the table succeed and \<^verbatim>\<open>joinShell\<close> calls
  with that id follow, and let \<open>pids\<close> list the ids of the attached parties, each once.
  Calling \<^verbatim>\<open>leaveShell\<close> for every id of \<open>pids\<close>, in the order of the list, returns nil
  for all but the last call, removes the session from the table, and invokes \<^verbatim>\<open>Close\<close> on
  the session's terminal exactly once: the trace grows by that one event. The last call
  returns what \<^verbatim>\<open>Close\<close> returned, error or not, and the session is gone from the table
  in either case.
\<close>

theorem last_party_closes:
  assumes "sessions reg sid = None"
    and "run_calls E sid (a # map JoinShell js) reg w = (None # rs, reg1, w1)"
    and "distinct pids"
    and "set pids = uuid_New E ` {uuid_calls w ..< uuid_calls w + Suc (length js)}"
  shows "\<exists>tm sess reg2.
           sessions reg1 sid = Some sess \<and> sess_t sess = Some tm
           \<and> leaveShells E sid pids reg1 w1
               = (replicate (length pids - 1) None @ [term_Close E tm], reg2,
                  emit [EvClose tm] w1)
           \<and> sessions reg2 sid = None"
proof -
  from attach_sequence [OF assms(1,2)] obtain tm sess where A:
    "sessions reg1 sid = Some sess" "sess_id sess = sid" "sess_t sess = Some tm" "keyed sess"
    "dom (sess_parties sess) = uuid_New E ` {uuid_calls w ..< uuid_calls w + Suc (length js)}"
    by blast
  have s: "set pids = dom (sess_parties sess)"
    using assms(4) A(5) by simp
  have "set pids \<noteq> {}"
    using assms(4) by simp
  then have ne: "pids \<noteq> []"
    by auto
  from leaveShells_all [OF A(1,2,3,4) assms(3) s ne, of E w1] obtain reg2 where L:
    "leaveShells E sid pids reg1 w1
       = (replicate (length pids - 1) None @ [term_Close E tm], reg2, emit [EvClose tm] w1)"
    "sessions reg2 = (sessions reg1)(sid := None)"
    by blast
  have "sessions reg2 sid = None"
    using L(2) by simp
  then show ?thesis
    using A(1,3) L(1) by blast
qed


theorem last_party_closes_witness:
  "sessions reg0 ''s'' = None
   \<and> fst (run_calls env_close_fails ''s''
        (NewShell (1, 1, [], 1) # map JoinShell [(2, 2, [], 2), (3, 3, [], 3)]) reg0 world0)
       = [None, None, None]
   \<and> (\<exists>reg2.
         leaveShells env_close_fails ''s'' [''pp'', ''ppp'', ''p'']
           (fst (snd (run_calls env_close_fails ''s''
              (NewShell (1, 1, [], 1) # map JoinShell [(2, 2, [], 2), (3, 3, [], 3)]) reg0 world0)))
           (snd (snd (run_calls env_close_fails ''s''
              (NewShell (1, 1, [], 1) # map JoinShell [(2, 2, [], 2), (3, 3, [], 3)]) reg0 world0)))
         = ([None, None, Some (ErrExternal ''close failed'')], reg2,
            emit [EvClose 0]
              (snd (snd (run_calls env_close_fails ''s''
                 (NewShell (1, 1, [], 1) # map JoinShell [(2, 2, [], 2), (3, 3, [], 3)])
                 reg0 world0))))
         \<and> sessions reg2 ''s'' = None)"
proof -
  let ?R = "run_calls env_close_fails ''s''
     (NewShell (1, 1, [], 1) # map JoinShell [(2, 2, [], 2), (3, 3, [], 3)]) reg0 world0"
  have h1: "sessions reg0 ''s'' = None"
    by (simp add: reg0_def newSessionRegistry_def)
  have r: "fst ?R = [None, None, None]"
    by (simp add: eval_defs)
  then have h2: "?R = (None # [None, None], fst (snd ?R), snd (snd ?R))"
    by (metis prod.collapse)
  have h3: "distinct [''pp'', ''ppp'', ''p'']"
    by simp
  have h4: "set [''pp'', ''ppp'', ''p''] = uuid_New env_close_fails ` {uuid_calls world0 ..<
        uuid_calls world0 + Suc (length [(2::nat, 2::nat, [] :: bytes, 2::nat), (3, 3, [], 3)])}"
    by (auto simp: env_close_fails_def env_ok_def world0_def atLeast0_lessThan_Suc)
  have t: "sess_t (the (sessions (fst (snd ?R)) ''s'')) = Some 0"
    by (simp add: eval_defs)
  have c: "term_Close env_close_fails 0 = Some (ErrExternal ''close failed'')"
    by (simp add: env_close_fails_def)
  show ?thesis
    using last_party_closes [OF h1 h2 h3 h4] h1 r t c by auto
qed

subsection \<open>C3: fan-out to every sink\<close>

text \<open>
  C3. Let \<open>ks\<close> be the order in which \<^verbatim>\<open>Write\<close> ranges over the registered sinks, and
  let every registered sink take the whole of \<open>p\<close>. Then \<^verbatim>\<open>Write(p)\<close> returns
  \<^verbatim>\<open>(len(p), nil)\<close> and has called \<^verbatim>\<open>Write(p)\<close> once on every registered sink and on no
  other: the trace grows by one event per key of \<open>ks\<close>. The set of registered sinks is
  unchanged, every capture buffer has grown by \<open>p\<close>, and every party sink is as before.
\<close>

theorem Write_fan_out:
  assumes "range_order (writers m) ks"
    and "\<forall>k\<in>set ks. \<forall>wr. writers m k = Some wr \<longrightarrow> sink_ok E p wr"
  shows "\<exists>m'. Write E ks p m w
             = ((int (length p), None), m', emit (map (\<lambda>k. EvSinkWrite k p) ks) w)
           \<and> dom (writers m') = dom (writers m)
           \<and> (\<forall>k buf. writers m k = Some (CaptureBuffer buf)
                 \<longrightarrow> writers m' k = Some (CaptureBuffer (buf @ p)))
           \<and> (\<forall>k pt. writers m k = Some (PartyWriter pt)
                 \<longrightarrow> writers m' k = Some (PartyWriter pt))"
proof -
  have d: "distinct ks" and s: "set ks = dom (writers m)"
    using assms(1) by (auto simp: range_order_def)
  have ok: "\<forall>k\<in>set ks. \<exists>wr. writers m k = Some wr \<and> sink_ok E p wr"
    using assms(2) s by auto
  let ?m = "m\<lparr>writers := (\<lambda>k. if k \<in> set ks then map_option (deliver E p) (writers m k)
                               else writers m k)\<rparr>"
  have w: "Write E ks p m w
      = ((int (length p), None), ?m, emit (map (\<lambda>k. EvSinkWrite k p) ks) w)"
    by (rule Write_all_ok [OF d ok])
  have dm: "dom (writers ?m) = dom (writers m)"
    by (auto simp: domIff split: if_splits)
  have cap: "\<forall>k buf. writers m k = Some (CaptureBuffer buf)
      \<longrightarrow> writers ?m k = Some (CaptureBuffer (buf @ p))"
    using s by (auto simp: deliver_def)
  have par: "\<forall>k pt. writers m k = Some (PartyWriter pt)
      \<longrightarrow> writers ?m k = Some (PartyWriter pt)"
    using s by (auto simp: deliver_def)
  show ?thesis
    using w dm cap par by (intro exI [of _ ?m] conjI)
qed

theorem Write_fan_out_witness:
  "range_order (writers (sess_writer sess_ab)) [''b'', ''capture'', ''a'']
   \<and> fst (Write env_ok [''b'', ''capture'', ''a''] [1, 2, 3] (sess_writer sess_ab) world0)
       = (3, None)
   \<and> trace (snd (snd (Write env_ok [''b'', ''capture'', ''a''] [1, 2, 3]
                         (sess_writer sess_ab) world0)))
       = [EvSinkWrite ''b'' [1, 2, 3], EvSinkWrite ''capture'' [1, 2, 3],
          EvSinkWrite ''a'' [1, 2, 3]]
   \<and> writers (fst (snd (Write env_ok [''b'', ''capture'', ''a''] [1, 2, 3]
                           (sess_writer sess_ab) world0))) ''capture''
       = Some (CaptureBuffer [1, 2, 3])"
proof -
  have h1: "range_order (writers (sess_writer sess_ab)) [''b'', ''capture'', ''a'']"
    by (auto simp: range_order_def sess_ab_def)
  have h2: "\<forall>k\<in>set [''b'', ''capture'', ''a'']. \<forall>wr.
      writers (sess_writer sess_ab) k = Some wr \<longrightarrow> sink_ok env_ok [1, 2, 3] wr"
    by (simp add: sess_ab_def sink_ok_def party_Write_def env_ok_def)
  have c: "writers (sess_writer sess_ab) ''capture'' = Some (CaptureBuffer [])"
    by (simp add: sess_ab_def)
  have t: "trace world0 = []"
    by (simp add: world0_def)
  show ?thesis
    using Write_fan_out [OF h1 h2, of world0] h1 c t by (auto simp: trace_emit)
qed

subsection \<open>C4: the broadcaster stops at the first failing sink\<close>

text \<open>
  C4, as amended. Let \<^verbatim>\<open>Write\<close> range over the sinks in the order \<open>ks1 @ k # ks2\<close>, let
  the sinks of \<open>ks1\<close> take the whole of \<open>p\<close>, and let the sink \<open>k\<close> return \<open>(n, err)\<close> with
  an error or with \<open>n\<close> different from the length of \<open>p\<close>. Then \<^verbatim>\<open>Write\<close> has called the
  sinks of \<open>ks1\<close> and the sink \<open>k\<close> and none of \<open>ks2\<close>, and it returns \<open>n\<close> together with
  the sink's own error when the sink returned one, and with the short-write error
  otherwise.
\<close>

theorem Write_fail_fast:
  assumes "range_order (writers m) (ks1 @ k # ks2)"
    and "\<forall>j\<in>set ks1. \<forall>wr. writers m j = Some wr \<longrightarrow> sink_ok E p wr"
    and "writers m k = Some wr" and "fst (sink_Write E wr p) = (n, err)"
    and "err \<noteq> None \<or> n \<noteq> int (length p)"
  shows "fst (Write E (ks1 @ k # ks2) p m w)
           = (n, if err \<noteq> None then err else Some ErrShortWrite)
       \<and> trace (snd (snd (Write E (ks1 @ k # ks2) p m w)))
           = trace w @ map (\<lambda>j. EvSinkWrite j p) (ks1 @ [k])"
proof -
  have d: "distinct ks1" and s: "set ks1 \<subseteq> dom (writers m)" and nk: "k \<notin> set ks1"
    using assms(1) by (auto simp: range_order_def)
  have ok: "\<forall>j\<in>set ks1. \<exists>wr. writers m j = Some wr \<and> sink_ok E p wr"
    using assms(2) s by auto
  note pre = Write_all_ok [OF d ok, of w]
  obtain wr' where sw: "sink_Write E wr p = ((n, err), wr')"
    using assms(4) by (cases "sink_Write E wr p") auto
  show ?thesis
    using assms(3,5) nk sw
    by (auto simp: Write_append pre Let_def trace_emit)
qed

theorem Write_fail_fast_witness:
  "range_order (writers (sess_writer sess_ab)) ([''a''] @ ''b'' # [''capture''])
   \<and> fst (sink_Write env_ch_short (PartyWriter party_b) [1, 2, 3]) = (1, None)
   \<and> fst (Write env_ch_short ([''a''] @ ''b'' # [''capture'']) [1, 2, 3]
             (sess_writer sess_ab) world0)
       = (1, Some ErrShortWrite)
   \<and> trace (snd (snd (Write env_ch_short ([''a''] @ ''b'' # [''capture'']) [1, 2, 3]
                         (sess_writer sess_ab) world0)))
       = [EvSinkWrite ''a'' [1, 2, 3], EvSinkWrite ''b'' [1, 2, 3]]"
proof -
  have h1: "range_order (writers (sess_writer sess_ab)) ([''a''] @ ''b'' # [''capture''])"
    by (auto simp: range_order_def sess_ab_def)
  have h2: "\<forall>j\<in>set [''a'']. \<forall>wr.
      writers (sess_writer sess_ab) j = Some wr \<longrightarrow> sink_ok env_ch_short [1, 2, 3] wr"
    by (simp add: sess_ab_def sink_ok_def party_Write_def env_ch_short_def env_ok_def
        party_a_def)
  have h3: "writers (sess_writer sess_ab) ''b'' = Some (PartyWriter party_b)"
    by (simp add: sess_ab_def)
  have h4: "fst (sink_Write env_ch_short (PartyWriter party_b) [1, 2, 3]) = (1, None)"
    by (simp add: party_Write_def env_ch_short_def env_ok_def party_b_def)
  have h5: "(None :: error option) \<noteq> None \<or> (1::int) \<noteq> int (length [1::8 word, 2, 3])"
    by simp
  have t: "trace world0 = []"
    by (simp add: world0_def)
  show ?thesis
    using Write_fail_fast [OF h1 h2 h3 h4 h5, of world0] h1 h4 t by simp
qed

text \<open>
  C4 as stated fails where the sink returns an error: \<^verbatim>\<open>Write\<close> hands that error on
  and does not replace it by the short-write error.
\<close>

theorem Write_sink_error_counterexample:
  "snd (fst (Write env_ch_closed [''a'', ''b'', ''capture''] [1, 2, 3]
               (sess_writer sess_ab) world0))
     = Some (ErrExternal ''EOF'')
   \<and> snd (fst (Write env_ch_closed [''a'', ''b'', ''capture''] [1, 2, 3]
                 (sess_writer sess_ab) world0))
     \<noteq> Some ErrShortWrite"
  by (simp add: eval_defs)

subsection \<open>C5: the result goes to the parties of the session\<close>

text \<open>
  C5. Let \<open>ks\<close> be the order in which \<^verbatim>\<open>session.broadcastResult\<close> ranges over the
  parties map. Then the calls of \<^verbatim>\<open>sendResult\<close> it makes are exactly one call with \<open>r\<close>
  for each party stored in the map, on that party's context, and nothing else is added
  to the trace. The registry's \<^verbatim>\<open>broadcastResult\<close> for a session id that is not in the
  table returns the not-found error and leaves the world as it was.
\<close>

theorem broadcastResult_scope:
  "(range_order (sess_parties s) ks \<longrightarrow>
      (\<exists>ps. map Some ps = map (sess_parties s) ks
         \<and> session_broadcastResult ks r s w
             = emit (map (\<lambda>pt. EvSendResult (party_ctx pt) r) ps) w))
   \<and> (sessions reg sid = None \<longrightarrow>
        broadcastResult ks sid r reg w = (Some (ErrSessionNotFound sid), w))"
proof (intro conjI impI)
  assume "range_order (sess_parties s) ks"
  then obtain ps where "map Some ps = map (sess_parties s) ks"
    using range_order_parties by blast
  then show "\<exists>ps. map Some ps = map (sess_parties s) ks
         \<and> session_broadcastResult ks r s w
             = emit (map (\<lambda>pt. EvSendResult (party_ctx pt) r) ps) w"
    using session_broadcastResult_trace by blast
next
  assume "sessions reg sid = None"
  then show "broadcastResult ks sid r reg w = (Some (ErrSessionNotFound sid), w)"
    by (simp add: broadcastResult_def findSession_def)
qed

theorem broadcastResult_scope_witness:
  "range_order (sess_parties sess_ab) [''b'', ''a'']
   \<and> session_broadcastResult [''b'', ''a''] \<lparr>code = 3\<rparr> sess_ab world0
       = emit [EvSendResult 2 \<lparr>code = 3\<rparr>, EvSendResult 1 \<lparr>code = 3\<rparr>] world0
   \<and> sessions reg0 ''zz'' = None
   \<and> broadcastResult [''b'', ''a''] ''zz'' \<lparr>code = 3\<rparr> reg0 world0
       = (Some (ErrSessionNotFound ''zz''), world0)"
proof -
  have h1: "range_order (sess_parties sess_ab) [''b'', ''a'']"
    by (auto simp: range_order_def sess_ab_def)
  have h2: "sessions reg0 ''zz'' = None"
    by (simp add: reg0_def newSessionRegistry_def)
  have m: "map (sess_parties sess_ab) [''b'', ''a''] = [Some party_b, Some party_a]"
    by (simp add: sess_ab_def)
  have c: "party_ctx party_b = 2" "party_ctx party_a = 1"
    by (simp_all add: party_a_def party_b_def)
  from broadcastResult_scope [of sess_ab "[''b'', ''a'']" "\<lparr>code = 3\<rparr>" world0 reg0 "''zz''"]
  show ?thesis
    using h1 h2 m c by (auto simp: map_eq_Cons_conv)
qed

subsection \<open>C6: a failed start registers nothing\<close>

text \<open>
  C6. If the context carries no terminal and \<^verbatim>\<open>newTerm\<close> fails with \<open>e\<close>, or if running
  the shell on the session's terminal (inherited or freshly allocated) fails with
  \<open>e\<close>, then \<^verbatim>\<open>newShell\<close> returns \<open>e\<close> and the registry is unchanged.
\<close>

theorem newShell_creation_failure:
  "(getTerm c w = None \<and> newTerm E (newTerm_calls w) = Inl e \<longrightarrow>
      fst (newShell E sid sconn ch req c reg w) = Some e
      \<and> fst (snd (newShell E sid sconn ch req c reg w)) = reg)
   \<and> ((getTerm c w = Some tm \<or> getTerm c w = None \<and> newTerm E (newTerm_calls w) = Inr tm)
        \<and> term_run E tm (shell_cmd E (srv reg)) = Some e \<longrightarrow>
      fst (newShell E sid sconn ch req c reg w) = Some e
      \<and> fst (snd (newShell E sid sconn ch req c reg w)) = reg)"
  by (auto simp: newShell_def start_def newParty_def call_newTerm_def getTerm_def Let_def
      split: prod.splits option.splits sum.splits)

theorem newShell_creation_failure_witness:
  "getTerm 1 world0 = None
   \<and> newTerm env_no_term (newTerm_calls world0) = Inl (ErrExternal ''no pty'')
   \<and> fst (newShell env_no_term ''s'' 1 1 [] 1 reg0 world0) = Some (ErrExternal ''no pty'')
   \<and> fst (snd (newShell env_no_term ''s'' 1 1 [] 1 reg0 world0)) = reg0
   \<and> getTerm 1 world0 = None \<and> newTerm env_no_run (newTerm_calls world0) = Inr 0
   \<and> term_run env_no_run 0 (shell_cmd env_no_run (srv reg0)) = Some (ErrExternal ''exec failed'')
   \<and> fst (newShell env_no_run ''s'' 1 1 [] 1 reg0 world0) = Some (ErrExternal ''exec failed'')
   \<and> fst (snd (newShell env_no_run ''s'' 1 1 [] 1 reg0 world0)) = reg0"
proof -
  have a: "getTerm 1 world0 = None"
    by (simp add: getTerm_def world0_def)
  have b: "newTerm env_no_term (newTerm_calls world0) = Inl (ErrExternal ''no pty'')"
    by (simp add: env_no_term_def env_ok_def)
  have c: "newTerm env_no_run (newTerm_calls world0) = Inr 0"
    by (simp add: env_no_run_def env_ok_def world0_def)
  have d: "term_run env_no_run 0 (shell_cmd env_no_run (srv reg0))
      = Some (ErrExternal ''exec failed'')"
    by (simp add: env_no_run_def env_ok_def)
  show ?thesis
    using newShell_creation_failure
        [of 1 world0 env_no_term "ErrExternal ''no pty''" "''s''" 1 1 "[]" reg0 0]
      newShell_creation_failure
        [of 1 world0 env_no_run "ErrExternal ''exec failed''" "''s''" 1 1 "[]" reg0 0]
      a b c d
    by simp
qed

subsection \<open>C7: leaving with an unknown party id\<close>

text \<open>
  C7. For a party id that is not in the session's parties map, \<^verbatim>\<open>session.leave\<close>
  returns the not-found error and the session is unchanged, its parties map and the
  sinks of its broadcaster included.
\<close>

theorem leave_unknown_party:
  "sess_parties s i = None \<Longrightarrow> leave i s = (Some (ErrPartyNotFound i), s)"
  by (simp add: leave_def)

theorem leave_unknown_party_witness:
  "sess_parties sess_ab ''zz'' = None
   \<and> leave ''zz'' sess_ab = (Some (ErrPartyNotFound ''zz''), sess_ab)"
proof -
  have h: "sess_parties sess_ab ''zz'' = None"
    by (simp add: sess_ab_def)
  show ?thesis
    using leave_unknown_party [OF h] h by simp
qed

subsection \<open>C8: the inherited terminal is consumed\<close>

text \<open>
  C8. If the context carries an inherited terminal, \<^verbatim>\<open>session.start\<close> first sets the
  context's slot to nil and then runs the command on that terminal: these are the first
  two events it adds to the trace. Whatever \<^verbatim>\<open>run\<close> returns is what \<^verbatim>\<open>start\<close> returns;
  afterwards the slot is nil and the session object holds the terminal. When \<^verbatim>\<open>run\<close>
  fails nothing more happens in \<^verbatim>\<open>start\<close>, and \<^verbatim>\<open>newShell\<close> returns the error with the
  registry unchanged, so that the session object holding the terminal is not registered
  and the context's slot stays nil.
\<close>

theorem start_consumes_inherited_term:
  assumes "getTerm c w = Some tm"
  shows "(\<exists>s' w' rest.
            start E sv sconn ch c s w = (term_run E tm (shell_cmd E sv), s', w')
            \<and> trace w' = trace w @ EvSetTerm c None # EvRun tm (shell_cmd E sv) # rest
            \<and> getTerm c w' = None
            \<and> sess_t s' = Some tm
            \<and> (term_run E tm (shell_cmd E sv) \<noteq> None \<longrightarrow> rest = []))
         \<and> (\<forall>e. term_run E tm (shell_cmd E (srv reg)) = Some e \<longrightarrow>
               (\<exists>w'. newShell E sid sconn ch req c reg w = (Some e, reg, w')
                  \<and> getTerm c w' = None))"
proof
  show "\<exists>s' w' rest.
            start E sv sconn ch c s w = (term_run E tm (shell_cmd E sv), s', w')
            \<and> trace w' = trace w @ EvSetTerm c None # EvRun tm (shell_cmd E sv) # rest
            \<and> getTerm c w' = None
            \<and> sess_t s' = Some tm
            \<and> (term_run E tm (shell_cmd E sv) \<noteq> None \<longrightarrow> rest = [])"
    using assms
    by (cases "term_run E tm (shell_cmd E sv)")
       (auto simp: start_def newParty_def setTerm_def getTerm_def emit_def addParty_def
          addCloser_def Let_def)
  show "\<forall>e. term_run E tm (shell_cmd E (srv reg)) = Some e \<longrightarrow>
               (\<exists>w'. newShell E sid sconn ch req c reg w = (Some e, reg, w')
                  \<and> getTerm c w' = None)"
    using assms
    by (auto simp: newShell_def start_def newParty_def setTerm_def getTerm_def emit_def Let_def)
qed

theorem start_consumes_inherited_term_witness:
  "getTerm 7 world_inherited = Some 40
   \<and> fst (start env_no_run (srv reg0) 1 1 7 (newSession ''s'') world_inherited)
       = Some (ErrExternal ''exec failed'')
   \<and> sess_t (fst (snd (start env_no_run (srv reg0) 1 1 7 (newSession ''s'') world_inherited)))
       = Some 40
   \<and> getTerm 7 (snd (snd (start env_no_run (srv reg0) 1 1 7 (newSession ''s'') world_inherited)))
       = None
   \<and> trace (snd (snd (start env_no_run (srv reg0) 1 1 7 (newSession ''s'') world_inherited)))
       = [EvSetTerm 7 None, EvRun 40 (shell_cmd env_no_run (srv reg0))]
   \<and> fst (snd (newShell env_no_run ''s'' 1 1 [] 7 reg0 world_inherited)) = reg0
   \<and> getTerm 7 (snd (snd (newShell env_no_run ''s'' 1 1 [] 7 reg0 world_inherited))) = None"
proof -
  have h: "getTerm 7 world_inherited = Some 40"
    by (simp add: getTerm_def world_inherited_def world0_def)
  have r: "term_run env_no_run 40 (shell_cmd env_no_run (srv reg0))
      = Some (ErrExternal ''exec failed'')"
    by (simp add: env_no_run_def env_ok_def)
  have t: "trace world_inherited = []"
    by (simp add: world_inherited_def world0_def)
  show ?thesis
    using start_consumes_inherited_term
        [OF h, of env_no_run "srv reg0" 1 1 "newSession ''s''" reg0 "''s''" "[]"] h r t
    by auto
qed

subsection \<open>C9: the session id is the caller's\<close>

text \<open>
  C9. After a successful \<^verbatim>\<open>newShell(sid, ...)\<close> the table is the old table with one
  entry written under the key \<open>sid\<close>, and the session stored there has the id \<open>sid\<close>.
\<close>

theorem newShell_key:
  assumes "newShell E sid sconn ch req c reg w = (None, reg', w')"
  shows "\<exists>sess. sessions reg' = (sessions reg)(sid \<mapsto> sess) \<and> sess_id sess = sid"
  using newShell_created [OF assms] by blast

theorem newShell_key_witness:
  "fst (newShell env_ok ''s'' 1 1 [] 1 reg0 world0) = None
   \<and> (\<exists>sess. sessions (fst (snd (newShell env_ok ''s'' 1 1 [] 1 reg0 world0)))
               = (sessions reg0)(''s'' \<mapsto> sess)
         \<and> sess_id sess = ''s'')"
proof -
  let ?R = "newShell env_ok ''s'' 1 1 [] 1 reg0 world0"
  have r: "fst ?R = None"
    by (simp add: eval_defs)
  then have h: "?R = (None, fst (snd ?R), snd (snd ?R))"
    by (metis prod.collapse)
  show ?thesis
    using newShell_key [OF h] r by simp
qed

subsection \<open>C10: parsing a join request never fails\<close>

text \<open>
  C10. \<^verbatim>\<open>parseJoinSubsys\<close> returns a nil error for every input. For the input
  \<^verbatim>\<open>"join:"\<close> followed by a session id it yields that id; for an input that does not
  begin with \<^verbatim>\<open>"join:"\<close> it yields the whole input.
\<close>

theorem parseJoinSubsys_never_fails:
  "snd (parseJoinSubsys name sv) = None
   \<and> js_sid (fst (parseJoinSubsys (''join:'' @ sid) sv)) = sid
   \<and> (\<not> prefix ''join:'' name \<longrightarrow> js_sid (fst (parseJoinSubsys name sv)) = name)"
  by (simp add: parseJoinSubsys_def TrimPrefix_def)

theorem parseJoinSubsys_never_fails_witness:
  "snd (parseJoinSubsys ''garbage'' \<lparr>shell = ''/bin/sh''\<rparr>) = None
   \<and> js_sid (fst (parseJoinSubsys (''join:'' @ ''abc'') \<lparr>shell = ''/bin/sh''\<rparr>)) = ''abc''
   \<and> \<not> prefix ''join:'' ''garbage''
   \<and> js_sid (fst (parseJoinSubsys ''garbage'' \<lparr>shell = ''/bin/sh''\<rparr>)) = ''garbage''"
  using parseJoinSubsys_never_fails [of "''garbage''" "\<lparr>shell = ''/bin/sh''\<rparr>" "''abc''"]
  by simp

end
